theory Spec2Isabelle
  imports Main "HOL-Library.Word"
begin

unbundle bit_operations_syntax

section \<open>Machine types of the AssemblyScript source\<close>

type_synonym u8 = "8 word"
type_synonym u32 = "32 word"
type_synonym i32 = "32 word"
type_synonym u64 = "64 word"

text \<open>
  An AssemblyScript string is a sequence of 16-bit code units; \<open>str.length\<close> counts
  them and \<open>charCodeAt\<close> reads one.
\<close>

type_synonym ustring = "16 word list"

definition str :: "string \<Rightarrow> ustring" where
  "str s = map of_char s"

text \<open>
  The bytes of a u64, least significant first, and the u64 that a list of bytes
  denotes in that order.
\<close>

definition u64_to_bytes :: "u64 \<Rightarrow> u8 list" where
  "u64_to_bytes v = map (\<lambda>k. ucast (drop_bit (8 * k) v)) [0..<8]"

fun u64_of_bytes :: "u8 list \<Rightarrow> u64" where
  "u64_of_bytes [] = 0"
| "u64_of_bytes (b # bs) = ucast b OR push_bit 8 (u64_of_bytes bs)"

text \<open>
  \<open>ultrain_assert(cond, msg)\<close> aborts the running action when \<open>cond\<close> is false.
  Each assertion of \<open>asset.ts\<close> is one constructor, named after the spec's error
  taxonomy:
  \<^item> \<open>InvalidSymbolLength\<close>: "length of _symbol name must be less than 7."
  \<^item> \<open>SymbolMismatch\<close>: "add: can not compare Asset with different _symbol." and
    "sub: can not compare Asset with different _symbol."
  \<^item> \<open>InsufficientAmount\<close>: "sub: the amount is less than target asset."
  \<^item> \<open>DivisionByZero\<close>: "divide by 0"
  \<^item> \<open>Overflow\<close>: named by the spec; no assertion of the source raises it.
  \<^item> \<open>ConversionTrap\<close>: the float-to-integer conversion \<open><u64>Math.pow(..)\<close> out of
    the range of u64.
  \<^item> \<open>RangeError\<close>: \<open>String.repeat\<close> with a negative count.
  \<^item> \<open>StreamExhausted\<close>: a read past the end of a data stream.
\<close>

datatype error =
    InvalidSymbolLength
  | SymbolMismatch
  | InsufficientAmount
  | DivisionByZero
  | Overflow
  | ConversionTrap
  | RangeError
  | StreamExhausted

text \<open>Chaining of calls that may abort: the first abort wins.\<close>

definition bind_result :: "error + 'a \<Rightarrow> ('a \<Rightarrow> error + 'b) \<Rightarrow> error + 'b" where
  "bind_result r f = (case r of Inl e \<Rightarrow> Inl e | Inr v \<Rightarrow> f v)"

section \<open>Symbol codec (asset.ts, lines 12--68)\<close>

definition CHAR_A :: u8 where
  "CHAR_A = 0x41"

definition CHAR_Z :: u8 where
  "CHAR_Z = 0x5A"

text \<open>
  \<open>str.charCodeAt(i)\<close>: the code unit at index \<open>i\<close> as an i32, and \<open>-1\<close> out of
  range.
\<close>

definition charCodeAt :: "ustring \<Rightarrow> nat \<Rightarrow> i32" where
  "charCodeAt s i = (if i < length s then ucast (s ! i) else - 1)"

text \<open>
  The loop of \<open>StringToSymbol\<close>.  The counter \<open>i\<close> and the bound \<open>len\<close> are u8.
  The shift count \<open>8 * (i + 1)\<close> is computed in u8, and a 64-bit shift uses its count
  modulo 64.  The log line written for a rejected character is not modelled; the
  character is skipped.
\<close>

function StringToSymbol_loop :: "ustring \<Rightarrow> u8 \<Rightarrow> u8 \<Rightarrow> u64 \<Rightarrow> u64" where
  "StringToSymbol_loop s len i result =
     (if i < len then
        (let charCode = (ucast (charCodeAt s (unat i) AND 0xff) :: u8) in
         if charCode < CHAR_A \<or> charCode > CHAR_Z
         then StringToSymbol_loop s len (i + 1) result
         else StringToSymbol_loop s len (i + 1)
                (result OR push_bit (unat (8 * (i + 1)) mod 64) (ucast charCode)))
      else result)"
  by pat_completeness auto
termination
proof (relation "measure (\<lambda>(s, len, i, result). unat len - unat i)")
  show "wf (measure (\<lambda>(s, len, i, result). unat len - unat i))"
    by simp
next
  fix s :: ustring and len i :: u8 and result :: u64 and x :: u8
  assume "i < len"
  then have "unat i < unat len"
    by (simp add: word_less_nat_alt)
  moreover from this have "unat (i + 1) = unat i + 1"
    using unsigned_less [of len, where 'a = nat] by (simp add: unat_word_ariths)
  ultimately show "((s, len, i + 1, result), (s, len, i, result))
      \<in> measure (\<lambda>(s, len, i, result). unat len - unat i)"
    by simp
  then show "((s, len, i + 1,
       result OR push_bit (unat (8 * (i + 1)) mod 64) (ucast x)), (s, len, i, result))
      \<in> measure (\<lambda>(s, len, i, result). unat len - unat i)"
    by simp
qed

declare StringToSymbol_loop.simps [simp del]

definition StringToSymbol :: "u8 \<Rightarrow> ustring \<Rightarrow> error + u64" where
  "StringToSymbol precision s =
     (let len = (of_nat (length s) :: u8) in
      if len \<le> 7
      then Inr (StringToSymbol_loop s len 0 0 OR ucast precision)
      else Inl InvalidSymbolLength)"

text \<open>
  \<open>SymbolNameLength\<close>: the precision byte is shifted out, then non-zero bytes are
  counted while \<open>length <= 7\<close>.
\<close>

function SymbolNameLength_loop :: "u64 \<Rightarrow> u32 \<Rightarrow> u32" where
  "SymbolNameLength_loop symbolName len =
     (if symbolName AND 0xff \<noteq> 0 \<and> len \<le> 7
      then SymbolNameLength_loop (drop_bit 8 symbolName) (len + 1)
      else len)"
  by pat_completeness auto
termination
proof (relation "measure (\<lambda>(symbolName, len). 8 - unat len)")
  show "wf (measure (\<lambda>(symbolName, len). 8 - unat len))"
    by simp
next
  fix symbolName :: u64 and len :: u32
  assume "symbolName AND 0xff \<noteq> 0 \<and> len \<le> 7"
  then have "unat len \<le> 7"
    by (simp add: word_le_nat_alt)
  moreover from this have "unat (len + 1) = unat len + 1"
    by (simp add: unat_word_ariths)
  ultimately show "((drop_bit 8 symbolName, len + 1), (symbolName, len))
      \<in> measure (\<lambda>(symbolName, len). 8 - unat len)"
    by simp
qed

declare SymbolNameLength_loop.simps [simp del]

definition SymbolNameLength :: "u64 \<Rightarrow> u32" where
  "SymbolNameLength symbolName = SymbolNameLength_loop (drop_bit 8 symbolName) 0"

section \<open>Asset (asset.ts, lines 88--321)\<close>

text \<open>\<open>const MAX_AMOUNT: u64 = ((1 << 62) - 1)\<close>, computed in u64.\<close>

definition MAX_AMOUNT :: u64 where
  "MAX_AMOUNT = push_bit 62 1 - 1"

record Asset =
  amount :: u64
  symbol :: u64

text \<open>The constructor, with its default arguments written out at the call.\<close>

definition new_Asset :: "u64 \<Rightarrow> u64 \<Rightarrow> Asset" where
  "new_Asset amt sy = \<lparr>amount = amt, symbol = sy\<rparr>"

definition clone :: "Asset \<Rightarrow> Asset" where
  "clone this =
     (let ast = new_Asset 0 0x5341475504 in ast\<lparr>amount := amount this, symbol := symbol this\<rparr>)"

text \<open>
  The comparisons contain no assertion: each returns a Boolean for every pair of
  assets.  They are given the result type of the operations that can abort, so that
  ``aborts'' and ``returns'' are both values.
\<close>

definition gt :: "Asset \<Rightarrow> Asset \<Rightarrow> error + bool" where
  "gt this lhs = Inr (symbol this = symbol lhs \<and> amount this > amount lhs)"

definition gte :: "Asset \<Rightarrow> Asset \<Rightarrow> error + bool" where
  "gte this lhs = Inr (symbol this = symbol lhs \<and> amount this \<ge> amount lhs)"

definition lt :: "Asset \<Rightarrow> Asset \<Rightarrow> error + bool" where
  "lt this lhs = Inr (symbol this = symbol lhs \<and> amount this < amount lhs)"

definition lte :: "Asset \<Rightarrow> Asset \<Rightarrow> error + bool" where
  "lte this lhs = Inr (symbol this = symbol lhs \<and> amount this \<le> amount lhs)"

definition eq :: "Asset \<Rightarrow> Asset \<Rightarrow> error + bool" where
  "eq this lhs = Inr (symbol this = symbol lhs \<and> amount this = amount lhs)"

text \<open>
  The arithmetic mutates \<open>this\<close> and returns it; the model returns the updated
  record.  \<open>+\<close>, \<open>-\<close> and \<open>*\<close> on u64 wrap around.  \<open>add\<close>, \<open>sub\<close> and
  \<open>divide\<close> assert before they compute; \<open>multi\<close> and \<open>setAmount\<close> hold no
  assertion and return on every input.
\<close>

definition add :: "Asset \<Rightarrow> Asset \<Rightarrow> error + Asset" where
  "add this rhs =
     (if symbol rhs = symbol this
      then Inr (this\<lparr>amount := amount this + amount rhs\<rparr>)
      else Inl SymbolMismatch)"

definition sub :: "Asset \<Rightarrow> Asset \<Rightarrow> error + Asset" where
  "sub this rhs =
     (if symbol rhs = symbol this
      then (if amount this \<ge> amount rhs
            then Inr (this\<lparr>amount := amount this - amount rhs\<rparr>)
            else Inl InsufficientAmount)
      else Inl SymbolMismatch)"

definition multi :: "Asset \<Rightarrow> u64 \<Rightarrow> error + Asset" where
  "multi this rhs = Inr (this\<lparr>amount := amount this * rhs\<rparr>)"

definition divide :: "Asset \<Rightarrow> u64 \<Rightarrow> error + Asset" where
  "divide this rhs =
     (if rhs \<noteq> 0
      then Inr (this\<lparr>amount := amount this div rhs\<rparr>)
      else Inl DivisionByZero)"

definition isAmountWithinRange :: "u64 \<Rightarrow> bool" where
  "isAmountWithinRange amt = (0 \<le> amt \<and> amt \<le> MAX_AMOUNT)"

definition setAmount :: "Asset \<Rightarrow> u64 \<Rightarrow> error + Asset" where
  "setAmount this newAmount =
     (if isAmountWithinRange newAmount
      then Inr (this\<lparr>amount := newAmount\<rparr>)
      else Inr this)"

text \<open>
  \<open>isSymbolValid\<close>.  The counter \<open>i\<close> is an i32 that starts at 0 and only grows
  while it is below 7, so it never wraps; it is a \<open>nat\<close> here.  The inner
  \<open>do ... while (i < 7)\<close> loop runs its body before the test; it either returns
  false from the method (\<open>None\<close>) or falls through with the shifted symbol and the
  counter (\<open>Some\<close>).
\<close>

function isSymbolValid_inner :: "u64 \<Rightarrow> nat \<Rightarrow> (u64 \<times> nat) option" where
  "isSymbolValid_inner symv i =
     (let symv' = drop_bit 8 symv in
      if symv' AND 0xff \<noteq> 0 then None
      else if i + 1 < 7 then isSymbolValid_inner symv' (i + 1)
      else Some (symv', i + 1))"
  by pat_completeness auto
termination
  by (relation "measure (\<lambda>(symv, i). 7 - i)") auto

declare isSymbolValid_inner.simps [simp del]

function isSymbolValid_loop :: "u64 \<Rightarrow> nat \<Rightarrow> bool" where
  "isSymbolValid_loop symv i =
     (if i < 7 then
        (let c = (ucast (symv AND 0xff) :: u8) in
         if c < CHAR_A \<or> c > CHAR_Z then False
         else (let sym1 = drop_bit 8 symv in
               if sym1 AND 0xff = 0 then
                 (case isSymbolValid_inner sym1 i of
                    None \<Rightarrow> False
                  | Some (sym2, i2) \<Rightarrow> isSymbolValid_loop sym2 (i2 + 1))
               else isSymbolValid_loop sym1 (i + 1)))
      else True)"
  by pat_completeness auto
termination
proof (relation "measure (\<lambda>(symv, i). 8 - i)")
  show "wf (measure (\<lambda>(symv, i). 8 - i))"
    by simp
next
  fix symv :: u64 and i :: nat and x :: u8 and xa :: u64 and x2 :: "u64 \<times> nat"
    and xb :: u64 and y :: nat
  assume "i < 7" and inner: "isSymbolValid_inner xa i = Some x2" and x2: "(xb, y) = x2"
  have grows: "isSymbolValid_inner s j = Some (r, k) \<Longrightarrow> j < k" for s j r k
  proof (induction s j rule: isSymbolValid_inner.induct)
    case (1 s j)
    then show ?case
      by (subst (asm) (2) isSymbolValid_inner.simps)
        (auto simp: Let_def split: if_splits)
  qed
  from inner x2 have "i < y"
    using grows [of xa i xb y] by simp
  with \<open>i < 7\<close> show "((xb, y + 1), (symv, i)) \<in> measure (\<lambda>(symv, i). 8 - i)"
    by simp
next
  fix symv :: u64 and i :: nat and x :: u8 and xa :: u64
  assume "i < 7"
  then show "((xa, i + 1), (symv, i)) \<in> measure (\<lambda>(symv, i). 8 - i)"
    by simp
qed

declare isSymbolValid_loop.simps [simp del]

definition isSymbolValid :: "Asset \<Rightarrow> bool" where
  "isSymbolValid this = isSymbolValid_loop (drop_bit 8 (symbol this)) 0"

definition isValid :: "Asset \<Rightarrow> bool" where
  "isValid this = (isAmountWithinRange (amount this) \<and> isSymbolValid this)"

subsection \<open>Rendering an asset as text\<close>

text \<open>
  \<open>itoa64\<close> belongs to the AssemblyScript standard library (internal/number), not to
  this repository.  It takes an i64 and returns its decimal digits, with a leading
  minus sign for a negative value; the u64 argument of \<open>formatAmount\<close> is read as
  an i64.
\<close>

definition digit_unit :: "int \<Rightarrow> 16 word" where
  "digit_unit d = 0x30 + of_int d"

function utoa :: "int \<Rightarrow> ustring" where
  "utoa n = (if n < 10 then [digit_unit n] else utoa (n div 10) @ [digit_unit (n mod 10)])"
  by pat_completeness auto
termination
  by (relation "measure nat") auto

declare utoa.simps [simp del]

definition itoa64 :: "u64 \<Rightarrow> ustring" where
  "itoa64 v = (if sint v < 0 then 0x2D # utoa (- sint v) else utoa (sint v))"

text \<open>
  \<open><u64>Math.pow(10, <i32>precision)\<close>: a power of ten up to \<open>10 ^ 19\<close> is an exact
  f64 and fits a u64; from \<open>10 ^ 20\<close> on the value is outside u64 and the
  float-to-integer conversion traps.
\<close>

definition pow10_u64 :: "u8 \<Rightarrow> error + u64" where
  "pow10_u64 precision =
     (if unat precision \<le> 19 then Inr (10 ^ unat precision) else Inl ConversionTrap)"

text \<open>\<open>zero.repeat(count)\<close> with an i32 count: a negative count is a RangeError.\<close>

definition repeat_zero :: "int \<Rightarrow> error + ustring" where
  "repeat_zero count = (if count < 0 then Inl RangeError else Inr (replicate (nat count) 0x30))"

definition formatAmount :: "u64 \<Rightarrow> u8 \<Rightarrow> error + ustring" where
  "formatAmount amt precision =
     bind_result (pow10_u64 precision) (\<lambda>digit.
       let integer = amt div digit;
           amountstr = itoa64 integer
       in if precision \<noteq> 0 then
            (let decimal = itoa64 (amt mod digit) in
             if int (length decimal) \<noteq> uint precision
             then bind_result (repeat_zero (uint precision - int (length decimal)))
                    (\<lambda>zeros. Inr (amountstr @ [0x2E] @ zeros @ decimal))
             else Inr (amountstr @ [0x2E] @ decimal))
          else Inr amountstr)"

function toString_loop :: "u64 \<Rightarrow> nat \<Rightarrow> ustring \<Rightarrow> ustring" where
  "toString_loop symv i symbol_str =
     (if i < 7 then
        (let symv' = drop_bit 8 symv;
             charCode = (ucast (symv' AND 0xff) :: u8)
         in if charCode \<ge> CHAR_A \<and> charCode \<le> CHAR_Z
            then toString_loop symv' (i + 1) (symbol_str @ [ucast charCode])
            else toString_loop symv' (i + 1) symbol_str)
      else symbol_str)"
  by pat_completeness auto
termination
  by (relation "measure (\<lambda>(symv, i, symbol_str). 7 - i)") auto

declare toString_loop.simps [simp del]

definition toString :: "Asset \<Rightarrow> error + ustring" where
  "toString this =
     (let precision = (ucast (symbol this AND 0xFF) :: u8);
          symbol_str = toString_loop (symbol this) 0 []
      in bind_result (formatAmount (amount this) precision)
           (\<lambda>formatted. Inr (formatted @ [0x20] @ symbol_str)))"

text \<open>
  The canonical rendering in the spec's words, for comparison with \<open>toString\<close>:
  the integer part, then, unless the precision is 0, a decimal point and the
  fractional part padded with zeros on the left to the precision, then a space and
  the symbol name.
\<close>

definition pad_left :: "nat \<Rightarrow> ustring \<Rightarrow> ustring" where
  "pad_left n d = replicate (n - length d) 0x30 @ d"

definition canonical_form :: "int \<Rightarrow> nat \<Rightarrow> ustring \<Rightarrow> ustring" where
  "canonical_form amt precision name =
     utoa (amt div 10 ^ precision)
     @ (if precision = 0 then [] else 0x2E # pad_left precision (utoa (amt mod 10 ^ precision)))
     @ 0x20 # name"

section \<open>Data streams and serialization\<close>

text \<open>
  Modelled from the spec: the class \<open>DataStream\<close> (\<open>ds.write<u64>\<close>,
  \<open>ds.read<u64>\<close>) is not among the source files.  Following the wire format of the
  spec (fixed order, no padding, no length prefix, little-endian fixed-width fields) a
  stream is a byte buffer with a read position: \<open>write<u64>\<close> appends the eight
  bytes of the value, least significant first; \<open>read<u64>\<close> takes eight bytes at the
  position and advances it, and fails when fewer than eight bytes remain.
\<close>

record DataStream =
  buffer :: "u8 list"
  pos :: nat

text \<open>
  Modelled from the spec: \<open>ds.write<u64>(v)\<close> appends the eight bytes of \<open>v\<close>,
  least significant first, with no padding and no length prefix.
\<close>

definition write_u64 :: "DataStream \<Rightarrow> u64 \<Rightarrow> DataStream" where
  "write_u64 ds v = ds\<lparr>buffer := buffer ds @ u64_to_bytes v\<rparr>"

text \<open>
  Modelled from the spec: \<open>ds.read<u64>()\<close> decodes the eight bytes at the read
  position and advances the position by eight; with fewer than eight bytes left the
  read fails.
\<close>

definition read_u64 :: "DataStream \<Rightarrow> error + (u64 \<times> DataStream)" where
  "read_u64 ds =
     (if pos ds + 8 \<le> length (buffer ds)
      then Inr (u64_of_bytes (take 8 (drop (pos ds) (buffer ds))), ds\<lparr>pos := pos ds + 8\<rparr>)
      else Inl StreamExhausted)"

text \<open>\<open>Asset.serialize\<close> and \<open>Asset.deserialize\<close> (asset.ts, lines 111--119).\<close>

definition Asset_serialize :: "Asset \<Rightarrow> DataStream \<Rightarrow> DataStream" where
  "Asset_serialize this ds = write_u64 (write_u64 ds (amount this)) (symbol this)"

definition Asset_deserialize :: "Asset \<Rightarrow> DataStream \<Rightarrow> error + (Asset \<times> DataStream)" where
  "Asset_deserialize this ds =
     bind_result (read_u64 ds) (\<lambda>(a, ds1).
       bind_result (read_u64 ds1) (\<lambda>(sy, ds2).
         Inr (this\<lparr>amount := a, symbol := sy\<rparr>, ds2)))"

text \<open>\<open>PermissionLevel\<close> (permission-level.ts).\<close>

record PermissionLevel =
  actor :: u64
  permission :: u64

definition new_PermissionLevel :: "u64 \<Rightarrow> u64 \<Rightarrow> PermissionLevel" where
  "new_PermissionLevel a p = \<lparr>actor = a, permission = p\<rparr>"

definition equal :: "PermissionLevel \<Rightarrow> PermissionLevel \<Rightarrow> bool" where
  "equal this rhs = (actor this = actor rhs \<and> permission this = permission rhs)"

definition PermissionLevel_serialize :: "PermissionLevel \<Rightarrow> DataStream \<Rightarrow> DataStream" where
  "PermissionLevel_serialize this ds = write_u64 (write_u64 ds (actor this)) (permission this)"

definition PermissionLevel_deserialize ::
  "PermissionLevel \<Rightarrow> DataStream \<Rightarrow> error + (PermissionLevel \<times> DataStream)" where
  "PermissionLevel_deserialize this ds =
     bind_result (read_u64 ds) (\<lambda>(a, ds1).
       bind_result (read_u64 ds1) (\<lambda>(p, ds2).
         Inr (this\<lparr>actor := a, permission := p\<rparr>, ds2)))"

section \<open>Arithmetic and comparison\<close>

lemma MAX_AMOUNT_unat: "unat MAX_AMOUNT = 2 ^ 62 - 1"
  by (simp add: MAX_AMOUNT_def)

lemma isAmountWithinRange_unat: "isAmountWithinRange amt \<longleftrightarrow> unat amt \<le> 2 ^ 62 - 1"
  by (simp add: isAmountWithinRange_def word_le_nat_alt MAX_AMOUNT_unat)

lemma unat_add_in_range:
  "isAmountWithinRange x \<Longrightarrow> isAmountWithinRange y \<Longrightarrow> unat (x + y) = unat x + unat y"
  by (simp add: isAmountWithinRange_unat unat_word_ariths)

lemma unat_sub_exact: "\<not> x < y \<Longrightarrow> unat (x - y) = unat x - unat (y :: u64)"
  by (simp add: unat_sub word_le_nat_alt not_less)

text \<open>
  Claim C6.  For every pair of assets \<open>a\<close> (self) and \<open>b\<close> (rhs): \<open>add\<close> and
  \<open>sub\<close> abort with \<open>SymbolMismatch\<close> exactly when the symbols differ, and abort
  with nothing else but, for \<open>sub\<close>, \<open>InsufficientAmount\<close>, which is raised exactly
  when the symbols match and \<open>a.amount < b.amount\<close>.  Otherwise \<open>add\<close> returns
  \<open>a\<close> with the amount \<open>a.amount + b.amount\<close> and \<open>sub\<close> returns \<open>a\<close> with the
  amount \<open>a.amount - b.amount\<close>, the symbol unchanged.  The sum is the u64 sum; it is
  the exact sum whenever both amounts are within range, and the difference is exact
  whenever \<open>sub\<close> succeeds.
\<close>

theorem add_sub_outcomes:
  "(add a b = Inl SymbolMismatch \<longleftrightarrow> symbol b \<noteq> symbol a)
   \<and> (\<forall>e. add a b = Inl e \<longrightarrow> e = SymbolMismatch)
   \<and> (sub a b = Inl SymbolMismatch \<longleftrightarrow> symbol b \<noteq> symbol a)
   \<and> (sub a b = Inl InsufficientAmount \<longleftrightarrow> symbol b = symbol a \<and> amount a < amount b)
   \<and> (\<forall>e. sub a b = Inl e \<longrightarrow> e = SymbolMismatch \<or> e = InsufficientAmount)
   \<and> (symbol b = symbol a \<longrightarrow> add a b = Inr (a\<lparr>amount := amount a + amount b\<rparr>))
   \<and> (symbol b = symbol a \<and> \<not> amount a < amount b \<longrightarrow>
        sub a b = Inr (a\<lparr>amount := amount a - amount b\<rparr>))
   \<and> (isAmountWithinRange (amount a) \<and> isAmountWithinRange (amount b) \<longrightarrow>
        unat (amount a + amount b) = unat (amount a) + unat (amount b))
   \<and> (\<not> amount a < amount b \<longrightarrow> unat (amount a - amount b) = unat (amount a) - unat (amount b))"
  by (auto simp: add_def sub_def unat_add_in_range unat_sub_exact)

theorem add_sub_outcomes_witness:
  "add \<lparr>amount = 5, symbol = 0x5341475504\<rparr> \<lparr>amount = 3, symbol = 0x5341475504\<rparr>
     = Inr \<lparr>amount = 8, symbol = 0x5341475504\<rparr>
   \<and> sub \<lparr>amount = 5, symbol = 0x5341475504\<rparr> \<lparr>amount = 3, symbol = 0x5341475504\<rparr>
     = Inr \<lparr>amount = 2, symbol = 0x5341475504\<rparr>
   \<and> sub \<lparr>amount = 3, symbol = 0x5341475504\<rparr> \<lparr>amount = 5, symbol = 0x5341475504\<rparr>
     = Inl InsufficientAmount
   \<and> add \<lparr>amount = 5, symbol = 0x5341475504\<rparr> \<lparr>amount = 3, symbol = 0x54525800\<rparr>
     = Inl SymbolMismatch
   \<and> sub \<lparr>amount = 5, symbol = 0x5341475504\<rparr> \<lparr>amount = 3, symbol = 0x54525800\<rparr>
     = Inl SymbolMismatch"
  using
    add_sub_outcomes [of "\<lparr>amount = 5, symbol = 0x5341475504\<rparr>"
      "\<lparr>amount = 3, symbol = 0x5341475504\<rparr>"]
    add_sub_outcomes [of "\<lparr>amount = 3, symbol = 0x5341475504\<rparr>"
      "\<lparr>amount = 5, symbol = 0x5341475504\<rparr>"]
    add_sub_outcomes [of "\<lparr>amount = 5, symbol = 0x5341475504\<rparr>"
      "\<lparr>amount = 3, symbol = 0x54525800\<rparr>"]
  by simp

text \<open>
  Claim C7.  \<open>divide(0)\<close> aborts with \<open>DivisionByZero\<close>; for every factor
  \<open>f \<noteq> 0\<close>, \<open>divide(f)\<close> succeeds and sets the amount to the quotient of the
  amounts rounded down (both are unsigned, so this is truncation toward zero); an
  asset with amount 7 divided by 2 has amount 3.
\<close>

theorem divide_outcomes:
  "divide a 0 = Inl DivisionByZero
   \<and> (f \<noteq> 0 \<longrightarrow> divide a f = Inr (a\<lparr>amount := amount a div f\<rparr>)
        \<and> unat (amount a div f) = unat (amount a) div unat f)
   \<and> divide (new_Asset 7 sy) 2 = Inr (new_Asset 3 sy)"
  by (simp add: divide_def new_Asset_def unat_div)

theorem divide_outcomes_witness:
  "(2 :: u64) \<noteq> 0
   \<and> divide \<lparr>amount = 7, symbol = 0x5341475504\<rparr> 2 = Inr \<lparr>amount = 3, symbol = 0x5341475504\<rparr>
   \<and> divide \<lparr>amount = 7, symbol = 0x5341475504\<rparr> 0 = Inl DivisionByZero"
  using divide_outcomes [of "\<lparr>amount = 7, symbol = 0x5341475504\<rparr>" 2 "0x5341475504"]
  by simp

text \<open>
  Claim C8.  \<open>setAmount\<close> never aborts.  When the new amount exceeds \<open>2^62 - 1\<close> the
  asset is returned unchanged (amount and symbol); when it is at most \<open>2^62 - 1\<close> the
  amount becomes the new amount.
\<close>

theorem setAmount_outcomes:
  "(unat newAmount > 2 ^ 62 - 1 \<longrightarrow> setAmount a newAmount = Inr a)
   \<and> (unat newAmount \<le> 2 ^ 62 - 1 \<longrightarrow>
        setAmount a newAmount = Inr (a\<lparr>amount := newAmount\<rparr>))"
  by (simp add: setAmount_def isAmountWithinRange_unat)

theorem setAmount_outcomes_witness:
  "unat (0x4000000000000000 :: u64) > 2 ^ 62 - 1
   \<and> setAmount \<lparr>amount = 7, symbol = 0x5341475504\<rparr> 0x4000000000000000
       = Inr \<lparr>amount = 7, symbol = 0x5341475504\<rparr>
   \<and> unat (0x3FFFFFFFFFFFFFFF :: u64) \<le> 2 ^ 62 - 1
   \<and> setAmount \<lparr>amount = 7, symbol = 0x5341475504\<rparr> 0x3FFFFFFFFFFFFFFF
       = Inr \<lparr>amount = 0x3FFFFFFFFFFFFFFF, symbol = 0x5341475504\<rparr>"
  using
    setAmount_outcomes [of "0x4000000000000000" "\<lparr>amount = 7, symbol = 0x5341475504\<rparr>"]
    setAmount_outcomes [of "0x3FFFFFFFFFFFFFFF" "\<lparr>amount = 7, symbol = 0x5341475504\<rparr>"]
  by simp

text \<open>
  Claim C5.  For assets \<open>a\<close> and \<open>b\<close> with the same symbol and
  \<open>a.amount + b.amount \<le> 2^62 - 1\<close> (as exact integers), the chain
  \<open>a.clone().add(b).sub(b)\<close> does not abort and its result is equal to \<open>a\<close> by
  \<open>eq\<close>.
\<close>

theorem add_sub_inverse:
  assumes "symbol a = symbol b"
    and "unat (amount a) + unat (amount b) \<le> 2 ^ 62 - 1"
  shows "bind_result (bind_result (add (clone a) b) (\<lambda>r. sub r b)) (\<lambda>r. eq r a) = Inr True"
proof -
  from assms(2) have le: "amount b \<le> amount a + amount b"
    by (simp add: word_le_nat_alt unat_word_ariths)
  have "add (clone a) b = Inr (a\<lparr>amount := amount a + amount b\<rparr>)"
    using assms(1) by (simp add: add_def clone_def new_Asset_def)
  moreover have "sub (a\<lparr>amount := amount a + amount b\<rparr>) b = Inr a"
    using assms(1) le by (simp add: sub_def)
  ultimately show ?thesis
    by (simp add: bind_result_def eq_def)
qed

theorem add_sub_inverse_witness:
  "symbol \<lparr>amount = 5, symbol = 0x5341475504\<rparr> = symbol \<lparr>amount = 3, symbol = 0x5341475504\<rparr>
   \<and> unat (amount \<lparr>amount = 5, symbol = 0x5341475504\<rparr>)
       + unat (amount \<lparr>amount = 3, symbol = 0x5341475504\<rparr>) \<le> 2 ^ 62 - 1
   \<and> bind_result (bind_result
       (add (clone \<lparr>amount = 5, symbol = 0x5341475504\<rparr>) \<lparr>amount = 3, symbol = 0x5341475504\<rparr>)
       (\<lambda>r. sub r \<lparr>amount = 3, symbol = 0x5341475504\<rparr>))
     (\<lambda>r. eq r \<lparr>amount = 5, symbol = 0x5341475504\<rparr>) = Inr True"
  using add_sub_inverse [of "\<lparr>amount = 5, symbol = 0x5341475504\<rparr>"
      "\<lparr>amount = 3, symbol = 0x5341475504\<rparr>"]
  by simp

text \<open>
  Claim C3, as stated: every operation combining two assets with different symbols
  aborts with \<open>SymbolMismatch\<close>.  It fails for the comparisons: \<open>gt\<close> on "5 UGAS"
  (precision 4) and "3 XRT" (precision 0) returns false.
\<close>

theorem comparison_mismatch_counterexample:
  "symbol \<lparr>amount = 5, symbol = 0x5341475504\<rparr> \<noteq> symbol \<lparr>amount = 3, symbol = 0x54525800\<rparr>
   \<and> gt \<lparr>amount = 5, symbol = 0x5341475504\<rparr> \<lparr>amount = 3, symbol = 0x54525800\<rparr> = Inr False
   \<and> gt \<lparr>amount = 5, symbol = 0x5341475504\<rparr> \<lparr>amount = 3, symbol = 0x54525800\<rparr>
       \<noteq> Inl SymbolMismatch"
  by (simp add: gt_def)

text \<open>
  Claim C3, amended.  For assets \<open>a\<close> and \<open>b\<close> with different symbols, \<open>add\<close> and
  \<open>sub\<close> abort with \<open>SymbolMismatch\<close>; the comparisons \<open>gt\<close>, \<open>gte\<close>, \<open>lt\<close>,
  \<open>lte\<close> and \<open>eq\<close> do not abort and return false.
\<close>

theorem mismatch_outcomes:
  assumes "symbol a \<noteq> symbol b"
  shows "add a b = Inl SymbolMismatch \<and> sub a b = Inl SymbolMismatch
    \<and> gt a b = Inr False \<and> gte a b = Inr False \<and> lt a b = Inr False
    \<and> lte a b = Inr False \<and> eq a b = Inr False"
  using assms by (auto simp: add_def sub_def gt_def gte_def lt_def lte_def eq_def)

theorem mismatch_outcomes_witness:
  "symbol \<lparr>amount = 5, symbol = 0x5341475504\<rparr> \<noteq> symbol \<lparr>amount = 3, symbol = 0x54525800\<rparr>
   \<and> add \<lparr>amount = 5, symbol = 0x5341475504\<rparr> \<lparr>amount = 3, symbol = 0x54525800\<rparr>
       = Inl SymbolMismatch
   \<and> sub \<lparr>amount = 5, symbol = 0x5341475504\<rparr> \<lparr>amount = 3, symbol = 0x54525800\<rparr>
       = Inl SymbolMismatch
   \<and> lte \<lparr>amount = 5, symbol = 0x5341475504\<rparr> \<lparr>amount = 3, symbol = 0x54525800\<rparr>
       = Inr False"
  using mismatch_outcomes [of "\<lparr>amount = 5, symbol = 0x5341475504\<rparr>"
      "\<lparr>amount = 3, symbol = 0x54525800\<rparr>"]
  by simp

text \<open>
  Claim C1, as stated: \<open>multi\<close> aborts with \<open>Overflow\<close> whenever the exact product
  exceeds \<open>2^62 - 1\<close>, so the amount stays within range.  It fails at amount
  \<open>2^61\<close> and factor 2: the product \<open>2^62\<close> exceeds the bound, the call returns,
  and the new amount is out of range.
\<close>

theorem multi_overflow_counterexample:
  "isAmountWithinRange (amount \<lparr>amount = 0x2000000000000000, symbol = 0x5341475504\<rparr>)
   \<and> unat (amount \<lparr>amount = 0x2000000000000000, symbol = 0x5341475504\<rparr>) * unat (2 :: u64)
       > 2 ^ 62 - 1
   \<and> multi \<lparr>amount = 0x2000000000000000, symbol = 0x5341475504\<rparr> 2
       = Inr \<lparr>amount = 0x4000000000000000, symbol = 0x5341475504\<rparr>
   \<and> multi \<lparr>amount = 0x2000000000000000, symbol = 0x5341475504\<rparr> 2 \<noteq> Inl Overflow
   \<and> \<not> isAmountWithinRange (amount \<lparr>amount = 0x4000000000000000, symbol = 0x5341475504\<rparr>)"
  by (simp add: multi_def isAmountWithinRange_unat)

text \<open>
  Claim C1, amended.  For every asset \<open>a\<close> and factor \<open>f\<close>, \<open>multi\<close> never aborts:
  it returns \<open>a\<close> with the amount \<open>a.amount * f\<close> modulo \<open>2^64\<close>.  When the exact
  product is at most \<open>2^62 - 1\<close>, the new amount is the exact product and lies within
  range.
\<close>

theorem multi_outcomes:
  "multi a f = Inr (a\<lparr>amount := amount a * f\<rparr>)
   \<and> unat (amount a * f) = (unat (amount a) * unat f) mod 2 ^ 64
   \<and> (unat (amount a) * unat f \<le> 2 ^ 62 - 1 \<longrightarrow>
        unat (amount a * f) = unat (amount a) * unat f
        \<and> isAmountWithinRange (amount a * f))"
  by (simp add: multi_def unat_word_ariths isAmountWithinRange_unat)

theorem multi_outcomes_witness:
  "unat (amount \<lparr>amount = 3, symbol = 0x5341475504\<rparr>) * unat (4 :: u64) \<le> 2 ^ 62 - 1
   \<and> multi \<lparr>amount = 3, symbol = 0x5341475504\<rparr> 4 = Inr \<lparr>amount = 12, symbol = 0x5341475504\<rparr>
   \<and> isAmountWithinRange (amount \<lparr>amount = 3, symbol = 0x5341475504\<rparr> * 4)"
  using multi_outcomes [of "\<lparr>amount = 3, symbol = 0x5341475504\<rparr>" 4]
  by simp

section \<open>Little-endian bytes\<close>

text \<open>
  Facts about \<open>u64_of_bytes\<close>, proved bit by bit: its value has no bit beyond its
  bytes, its lowest byte is the head of the list, and a shift by eight bits drops
  that head.  A packed symbol is \<open>push_bit 8 (u64_of_bytes name) OR precision\<close>.
\<close>

lemma xff_mask: "(0xff :: 'a::len word) = mask 8"
  by (simp add: mask_eq_exp_minus_1)

lemma low_byte_of_unit: "(ucast (ucast (c :: 16 word) AND (0xff :: 32 word)) :: u8) = ucast c"
  unfolding xff_mask by (rule bit_word_eqI) (auto simp: bit_simps dest: bit_imp_le_length)

lemma u64_of_bytes_bit_bound: "bit (u64_of_bytes bs) m \<Longrightarrow> m < 8 * length bs"
proof (induction bs arbitrary: m)
  case Nil
  then show ?case by simp
next
  case (Cons b bs)
  from Cons.prems have "bit (ucast b :: u64) m \<or> (8 \<le> m \<and> bit (u64_of_bytes bs) (m - 8))"
    by (auto simp: bit_simps dest: bit_imp_le_length)
  then show ?case
  proof
    assume "bit (ucast b :: u64) m"
    then have "m < 8" by (auto simp: bit_simps dest: bit_imp_le_length)
    then show ?thesis by simp
  next
    assume "8 \<le> m \<and> bit (u64_of_bytes bs) (m - 8)"
    then show ?thesis using Cons.IH [of "m - 8"] by auto
  qed
qed

lemma u64_of_bytes_low: "u64_of_bytes (b # bs) AND 0xff = ucast b"
  unfolding xff_mask by (rule bit_word_eqI) (auto simp: bit_simps dest: bit_imp_le_length)

lemma u64_of_bytes_shift:
  assumes "length bs \<le> 7"
  shows "drop_bit 8 (u64_of_bytes (b # bs)) = u64_of_bytes bs"
proof (rule bit_word_eqI)
  fix n assume "n < LENGTH(64)"
  show "bit (drop_bit 8 (u64_of_bytes (b # bs))) n \<longleftrightarrow> bit (u64_of_bytes bs) n"
    using u64_of_bytes_bit_bound [of bs n] assms by (auto simp: bit_simps dest: bit_imp_le_length)
qed

lemma symbol_shift:
  assumes "length bs \<le> 7"
  shows "drop_bit 8 (push_bit 8 (u64_of_bytes bs) OR ucast (p :: u8)) = u64_of_bytes bs"
proof (rule bit_word_eqI)
  fix n assume "n < LENGTH(64)"
  show "bit (drop_bit 8 (push_bit 8 (u64_of_bytes bs) OR ucast p)) n \<longleftrightarrow> bit (u64_of_bytes bs) n"
    using u64_of_bytes_bit_bound [of bs n] assms by (auto simp: bit_simps dest: bit_imp_le_length)
qed

lemma symbol_low: "(push_bit 8 x OR ucast (p :: u8)) AND (0xff :: u64) = ucast p"
  unfolding xff_mask by (rule bit_word_eqI) (auto simp: bit_simps dest: bit_imp_le_length)

lemma ucast_byte_back: "(ucast (ucast (b :: u8) :: u64) :: u8) = b"
  by (rule bit_word_eqI) (auto simp: bit_simps)

lemma ucast_byte_eq_0: "(ucast (b :: u8) :: u64) = 0 \<longleftrightarrow> b = 0"
proof
  assume zero: "(ucast b :: u64) = 0"
  have "b = (ucast (ucast b :: u64) :: u8)"
    by (simp only: ucast_byte_back)
  with zero show "b = 0" by simp
qed simp

lemma u64_of_bytes_slice:
  "u64_of_bytes (map (\<lambda>k. ucast (drop_bit (8 * k) v)) [j..<j + n])
     = take_bit (8 * n) (drop_bit (8 * j) v)"
proof (induction n arbitrary: j)
  case 0
  then show ?case by simp
next
  case (Suc n)
  have "[j..<j + Suc n] = j # [Suc j..<Suc j + n]"
    by (simp add: upt_conv_Cons)
  then have "u64_of_bytes (map (\<lambda>k. ucast (drop_bit (8 * k) v)) [j..<j + Suc n])
      = ucast (ucast (drop_bit (8 * j) v) :: u8)
          OR push_bit 8 (take_bit (8 * n) (drop_bit (8 * Suc j) v))"
    using Suc.IH [of "Suc j"] by simp
  also have "\<dots> = take_bit (8 * Suc n) (drop_bit (8 * j) v)"
    by (rule bit_word_eqI) (auto simp: bit_simps)
  finally show ?case .
qed

lemma u64_of_to_bytes: "u64_of_bytes (u64_to_bytes v) = v"
  using u64_of_bytes_slice [of v 0 8] by (simp add: u64_to_bytes_def take_bit_word_eq_self)

lemma length_u64_to_bytes: "length (u64_to_bytes v) = 8"
  by (simp add: u64_to_bytes_def)

section \<open>The symbol codec\<close>

text \<open>
  On a name of at most seven letters the loop of \<open>StringToSymbol\<close> packs the code
  units, in order, into the bytes above the precision byte.  The loops of
  \<open>SymbolNameLength\<close> and \<open>isSymbolValid\<close> are then followed on the packed
  bytes by induction on the list.
\<close>

lemma unit_in_range:
  assumes "0x41 \<le> (c :: 16 word)" and "c \<le> 0x5A"
  shows "\<not> ((ucast c :: u8) < CHAR_A \<or> (ucast c :: u8) > CHAR_Z)"
proof -
  from assms have "65 \<le> unat c" and "unat c \<le> 90"
    by (simp_all add: word_le_nat_alt)
  moreover have "unat (ucast c :: u8) = unat c mod 256"
    by (simp add: unsigned_ucast_eq take_bit_eq_mod)
  ultimately have "65 \<le> unat (ucast c :: u8)" and "unat (ucast c :: u8) \<le> 90"
    by simp_all
  then show ?thesis
    by (simp add: CHAR_A_def CHAR_Z_def word_less_nat_alt)
qed

lemma StringToSymbol_loop_packs:
  assumes "length s \<le> 7" and "\<forall>c\<in>set s. 0x41 \<le> c \<and> c \<le> 0x5A"
    and "n = length s - unat i" and "unat i \<le> length s"
  shows "StringToSymbol_loop s (of_nat (length s)) i r
    = r OR push_bit (8 * (unat i + 1)) (u64_of_bytes (map ucast (drop (unat i) s)))"
  using assms(3,4)
proof (induction n arbitrary: i r)
  case 0
  then have "unat i = length s" by simp
  then have "\<not> i < (of_nat (length s) :: u8)"
    using assms(1) by (simp add: word_less_nat_alt unat_of_nat)
  then show ?case
    using \<open>unat i = length s\<close> by (subst StringToSymbol_loop.simps) simp
next
  case (Suc n)
  then have lt: "unat i < length s" by simp
  with assms(1) have i6: "unat i \<le> 6" by simp
  have len: "unat (of_nat (length s) :: u8) = length s"
    using assms(1) by (simp add: unat_of_nat)
  from lt len have cond: "i < (of_nat (length s) :: u8)"
    by (simp add: word_less_nat_alt)
  from i6 have succ: "unat (i + 1) = unat i + 1"
    by (simp add: unat_word_ariths)
  from i6 succ have shift: "unat (8 * (i + 1)) mod 64 = 8 * (unat i + 1)"
    by (simp add: unat_word_ariths)
  let ?c = "s ! unat i"
  from lt assms(2) have rng: "0x41 \<le> ?c" "?c \<le> 0x5A"
    by simp_all
  have code: "(ucast (charCodeAt s (unat i) AND 0xff) :: u8) = ucast ?c"
    using lt by (simp add: charCodeAt_def low_byte_of_unit)
  have split: "drop (unat i) s = ?c # drop (unat i + 1) s"
    using lt by (simp add: Cons_nth_drop_Suc)
  have "StringToSymbol_loop s (of_nat (length s)) i r
      = StringToSymbol_loop s (of_nat (length s)) (i + 1)
          (r OR push_bit (8 * (unat i + 1)) (ucast (ucast ?c :: u8)))"
    using cond code shift unit_in_range [OF rng]
    by (subst StringToSymbol_loop.simps) (simp add: Let_def)
  also have "\<dots> = (r OR push_bit (8 * (unat i + 1)) (ucast (ucast ?c :: u8)))
      OR push_bit (8 * (unat (i + 1) + 1)) (u64_of_bytes (map ucast (drop (unat (i + 1)) s)))"
    using Suc.prems succ by (intro Suc.IH) simp_all
  also have "\<dots> = r OR push_bit (8 * (unat i + 1)) (u64_of_bytes (map ucast (drop (unat i) s)))"
    by (simp only: split succ) (simp add: push_bit_push_bit or.assoc)
  finally show ?case .
qed

lemma StringToSymbol_packs:
  assumes "length s \<le> 7" and "\<forall>c\<in>set s. 0x41 \<le> c \<and> c \<le> 0x5A"
  shows "StringToSymbol p s = Inr (push_bit 8 (u64_of_bytes (map ucast s)) OR ucast p)"
proof -
  have "(of_nat (length s) :: u8) \<le> 7"
    using assms(1) by (simp add: word_le_nat_alt unat_of_nat)
  then show ?thesis
    using StringToSymbol_loop_packs [OF assms refl, of 0 0]
    by (simp add: StringToSymbol_def)
qed

lemma bytes_of_letters:
  assumes "\<forall>c\<in>set s. 0x41 \<le> c \<and> c \<le> (0x5A :: 16 word)"
  shows "\<forall>b\<in>set (map ucast s :: u8 list). 0x41 \<le> b \<and> b \<le> 0x5A"
proof
  fix b :: u8
  assume "b \<in> set (map ucast s)"
  then obtain c where c: "c \<in> set s" and b: "b = ucast c"
    by auto
  with assms have "0x41 \<le> c" and "c \<le> 0x5A"
    by simp_all
  then show "0x41 \<le> b \<and> b \<le> 0x5A"
    using unit_in_range [of c] b by (simp add: CHAR_A_def CHAR_Z_def not_less)
qed

lemma SymbolNameLength_loop_counts:
  assumes "\<forall>b\<in>set bs. b \<noteq> 0" and "unat l + length bs \<le> 7"
  shows "unat (SymbolNameLength_loop (u64_of_bytes bs) l) = unat l + length bs"
  using assms
proof (induction bs arbitrary: l)
  case Nil
  then show ?case
    by (subst SymbolNameLength_loop.simps) simp
next
  case (Cons b bs)
  from Cons.prems have l6: "unat l \<le> 6" and short: "length bs \<le> 7" and nz: "b \<noteq> 0"
    by simp_all
  from l6 have le7: "l \<le> 7" and succ: "unat (l + 1) = unat l + 1"
    by (simp_all add: word_le_nat_alt unat_word_ariths)
  have "SymbolNameLength_loop (u64_of_bytes (b # bs)) l
      = SymbolNameLength_loop (u64_of_bytes bs) (l + 1)"
    using nz le7 short
    by (subst SymbolNameLength_loop.simps)
      (simp only: u64_of_bytes_low u64_of_bytes_shift ucast_byte_eq_0 if_True simp_thms)
  moreover have "unat (SymbolNameLength_loop (u64_of_bytes bs) (l + 1)) = unat (l + 1) + length bs"
    using Cons.prems succ by (intro Cons.IH) simp_all
  ultimately show ?case
    using succ by simp
qed

lemma isSymbolValid_inner_zero: "i < 7 \<Longrightarrow> isSymbolValid_inner 0 i = Some (0, 7)"
proof (induction "6 - i" arbitrary: i)
  case 0
  then have "i = 6" by simp
  then show ?case by (subst isSymbolValid_inner.simps) simp
next
  case (Suc n)
  then have "i + 1 < 7" and "n = 6 - (i + 1)" by simp_all
  then show ?case
    using Suc.hyps(1) [of "i + 1"] by (subst isSymbolValid_inner.simps) simp
qed

lemma isSymbolValid_loop_done: "7 \<le> i \<Longrightarrow> isSymbolValid_loop x i"
  by (subst isSymbolValid_loop.simps) simp

lemma byte_in_range:
  "0x41 \<le> (b :: u8) \<Longrightarrow> b \<le> 0x5A \<Longrightarrow> \<not> (b < CHAR_A \<or> b > CHAR_Z)"
  by (simp add: CHAR_A_def CHAR_Z_def not_less)

lemma isSymbolValid_loop_letters:
  assumes "bs \<noteq> []" and "\<forall>b\<in>set bs. 0x41 \<le> b \<and> b \<le> 0x5A" and "i + length bs \<le> 7"
  shows "isSymbolValid_loop (u64_of_bytes bs) i"
  using assms
proof (induction bs arbitrary: i)
  case Nil
  then show ?case by simp
next
  case (Cons b bs)
  from Cons.prems have i7: "i < 7" and short: "length bs \<le> 7"
    and rng: "0x41 \<le> b" "b \<le> 0x5A"
    by simp_all
  have head: "(ucast (u64_of_bytes (b # bs) AND 0xff) :: u8) = b"
    by (simp only: u64_of_bytes_low ucast_byte_back)
  have tail: "drop_bit 8 (u64_of_bytes (b # bs)) = u64_of_bytes bs"
    using short by (rule u64_of_bytes_shift)
  show ?case
  proof (cases bs)
    case Nil
    then have "u64_of_bytes bs = 0" by simp
    with i7 head tail byte_in_range [OF rng] show ?thesis
      by (subst isSymbolValid_loop.simps)
        (simp add: Let_def isSymbolValid_inner_zero isSymbolValid_loop_done)
  next
    case (Cons b' bs')
    then have "u64_of_bytes bs AND 0xff = ucast b'"
      by (simp only: u64_of_bytes_low)
    moreover from Cons Cons.prems(2) have "b' \<noteq> 0"
      by auto
    ultimately have nz: "u64_of_bytes bs AND 0xff \<noteq> 0"
      by (simp add: ucast_byte_eq_0)
    have "isSymbolValid_loop (u64_of_bytes bs) (i + 1)"
      using Cons Cons.prems by (intro Cons.IH) simp_all
    with i7 head tail nz byte_in_range [OF rng] show ?thesis
      by (subst isSymbolValid_loop.simps) (simp add: Let_def)
  qed
qed

lemma StringToSymbol_empty: "StringToSymbol p [] = Inr (ucast p)"
  by (simp add: StringToSymbol_def StringToSymbol_loop.simps)

lemma drop_precision: "drop_bit 8 (ucast (p :: u8) :: u64) = 0"
  by (rule bit_word_eqI) (auto simp: bit_simps dest: bit_imp_le_length)

lemma SymbolNameLength_bare: "SymbolNameLength (ucast (p :: u8)) = 0"
  by (simp add: SymbolNameLength_def drop_precision SymbolNameLength_loop.simps)

lemma isSymbolValid_bare: "\<not> isSymbolValid (new_Asset amt (ucast (p :: u8)))"
  by (simp add: isSymbolValid_def new_Asset_def drop_precision isSymbolValid_loop.simps
      CHAR_A_def)

text \<open>
  Claim C2, as stated: for every precision in \<open>[0, 18]\<close> and every string of at most
  7 letters \<open>A\<close>--\<open>Z\<close>, the empty string included, the encoded symbol has the
  string's length as its name length and is valid.  It fails at the empty string:
  \<open>StringToSymbol(0, "")\<close> is 0, whose name length is 0, and \<open>isSymbolValid\<close> is
  false for it, because the first name byte must be a letter.
\<close>

theorem empty_symbol_counterexample:
  "(0 :: u8) \<le> 18 \<and> length ([] :: ustring) \<le> 7
   \<and> StringToSymbol 0 [] = Inr 0
   \<and> unat (SymbolNameLength 0) = length ([] :: ustring)
   \<and> \<not> isSymbolValid (new_Asset 0 0)"
  using StringToSymbol_empty [of 0] SymbolNameLength_bare [of 0] isSymbolValid_bare [of 0 0]
  by simp

text \<open>
  Claim C2, amended.  For every precision \<open>p\<close> in \<open>[0, 18]\<close> and every string
  \<open>s\<close> of 1 to 7 code units, all in \<open>A\<close>--\<open>Z\<close>: \<open>StringToSymbol(p, s)\<close> does not
  abort, \<open>SymbolNameLength\<close> of the result is the length of \<open>s\<close>, and an asset
  with that symbol satisfies \<open>isSymbolValid\<close>.  For the empty string the result is
  the bare precision, whose name length is 0, and \<open>isSymbolValid\<close> is false.
\<close>

theorem symbol_roundtrip:
  "(p \<le> 18 \<and> 1 \<le> length s \<and> length s \<le> 7 \<and> (\<forall>c\<in>set s. 0x41 \<le> c \<and> c \<le> 0x5A) \<longrightarrow>
      (\<exists>sy. StringToSymbol p s = Inr sy
        \<and> unat (SymbolNameLength sy) = length s
        \<and> isSymbolValid (new_Asset amt sy)))
   \<and> StringToSymbol p [] = Inr (ucast p)
   \<and> unat (SymbolNameLength (ucast p)) = length ([] :: ustring)
   \<and> \<not> isSymbolValid (new_Asset amt (ucast p))"
proof -
  have letters_case: "\<exists>sy. StringToSymbol p s = Inr sy
      \<and> unat (SymbolNameLength sy) = length s
      \<and> isSymbolValid (new_Asset amt sy)"
    if nonempty: "1 \<le> length s" and short: "length s \<le> 7"
      and units: "\<forall>c\<in>set s. 0x41 \<le> c \<and> c \<le> 0x5A"
  proof -
    let ?bs = "map ucast s :: u8 list"
    let ?sy = "push_bit 8 (u64_of_bytes ?bs) OR ucast p :: u64"
    have enc: "StringToSymbol p s = Inr ?sy"
      using short units by (rule StringToSymbol_packs)
    have name: "drop_bit 8 ?sy = u64_of_bytes ?bs"
      by (rule symbol_shift) (simp add: short)
    have letters: "\<forall>b\<in>set ?bs. 0x41 \<le> b \<and> b \<le> 0x5A"
      using units by (rule bytes_of_letters)
    then have nonzero: "\<forall>b\<in>set ?bs. b \<noteq> 0"
      by auto
    have "unat (SymbolNameLength_loop (u64_of_bytes ?bs) 0) = unat (0 :: u32) + length ?bs"
      using nonzero short by (intro SymbolNameLength_loop_counts) simp_all
    then have len: "unat (SymbolNameLength ?sy) = length s"
      by (simp only: SymbolNameLength_def name) simp
    have "isSymbolValid_loop (u64_of_bytes ?bs) 0"
      using letters nonempty short by (intro isSymbolValid_loop_letters) auto
    then have "isSymbolValid (new_Asset amt ?sy)"
      by (simp only: isSymbolValid_def new_Asset_def Asset.simps name)
    with enc len show ?thesis
      by blast
  qed
  show ?thesis
    using letters_case StringToSymbol_empty [of p] SymbolNameLength_bare [of p]
      isSymbolValid_bare [of amt p]
    by simp
qed

theorem symbol_roundtrip_witness:
  "(4 :: u8) \<le> 18 \<and> 1 \<le> length (str ''UGAS'') \<and> length (str ''UGAS'') \<le> 7
   \<and> StringToSymbol 4 (str ''UGAS'') = Inr 0x5341475504
   \<and> unat (SymbolNameLength 0x5341475504) = length (str ''UGAS'')
   \<and> isSymbolValid (new_Asset 10000 0x5341475504)"
proof -
  have letters: "\<forall>c\<in>set (str ''UGAS''). 0x41 \<le> c \<and> c \<le> 0x5A"
    by (simp add: str_def)
  have enc: "StringToSymbol 4 (str ''UGAS'') = Inr 0x5341475504"
    by code_simp
  show ?thesis
    using symbol_roundtrip [of 4 "str ''UGAS''" 10000] letters enc
    by (simp add: str_def)
qed

lemma StringToSymbol_loop_cong:
  assumes "\<And>k. k < unat len \<Longrightarrow> charCodeAt s k = charCodeAt s' k"
  shows "StringToSymbol_loop s len i r = StringToSymbol_loop s' len i r"
  using assms
proof (induction s len i r rule: StringToSymbol_loop.induct)
  case (1 s len i r)
  show ?case
  proof (cases "i < len")
    case True
    then have same: "charCodeAt s (unat i) = charCodeAt s' (unat i)"
      using "1.prems" by (simp add: word_less_nat_alt)
    show ?thesis
      using True same "1.IH" "1.prems"
      by (subst StringToSymbol_loop.simps, subst (2) StringToSymbol_loop.simps)
        (auto simp: Let_def)
  next
    case False
    then show ?thesis
      by (subst StringToSymbol_loop.simps, subst (2) StringToSymbol_loop.simps) simp
  qed
qed

lemma of_nat_length_mod: "(of_nat (n mod 256) :: u8) = of_nat n"
  by (simp add: word_of_nat_eq_iff take_bit_eq_mod)

lemma unat_len_mod: "unat (of_nat n :: u8) = n mod 256"
  by (simp add: unat_of_nat)

text \<open>
  Claim C10.  \<open>StringToSymbol\<close> compares the string's length modulo 256 with 7: it
  aborts with the length error exactly when \<open>length mod 256\<close> exceeds 7.  Otherwise
  it returns, and the result is that of the first \<open>length mod 256\<close> code units alone;
  a string of 256 code units encodes to the bare precision byte.
\<close>

theorem length_truncation:
  "(StringToSymbol p s = Inl InvalidSymbolLength \<longleftrightarrow> 7 < length s mod 256)
   \<and> (length s mod 256 \<le> 7 \<longrightarrow>
        StringToSymbol p s = StringToSymbol p (take (length s mod 256) s)
        \<and> (\<exists>sy. StringToSymbol p s = Inr sy))
   \<and> (length s = 256 \<longrightarrow> StringToSymbol p s = Inr (ucast p))"
proof -
  let ?n = "length s mod 256"
  have le: "(of_nat (length s) :: u8) \<le> 7 \<longleftrightarrow> ?n \<le> 7"
    by (simp add: word_le_nat_alt unat_len_mod)
  have a: "StringToSymbol p s = Inl InvalidSymbolLength \<longleftrightarrow> 7 < ?n"
    using le by (auto simp: StringToSymbol_def Let_def)
  have b: "StringToSymbol p s = StringToSymbol p (take ?n s)
      \<and> (\<exists>sy. StringToSymbol p s = Inr sy)" if "?n \<le> 7"
  proof -
    have "?n \<le> length s" by simp
    then have len: "length (take ?n s) = ?n" by simp
    have "charCodeAt s k = charCodeAt (take ?n s) k"
      if "k < unat (of_nat (length s) :: u8)" for k
    proof -
      from that have "k < ?n"
        by (simp add: unat_len_mod)
      moreover have "?n \<le> length s"
        by simp
      ultimately have "k < length s"
        by (rule less_le_trans)
      with \<open>k < ?n\<close> show ?thesis
        by (simp add: charCodeAt_def)
    qed
    then have "StringToSymbol_loop s (of_nat (length s)) 0 0
        = StringToSymbol_loop (take ?n s) (of_nat (length s)) 0 0"
      by (rule StringToSymbol_loop_cong)
    then show ?thesis
      using that le by (simp add: StringToSymbol_def Let_def len of_nat_length_mod)
  qed
  have c: "StringToSymbol p s = Inr (ucast p)" if "length s = 256"
    using that by (simp add: StringToSymbol_def StringToSymbol_loop.simps)
  from a b c show ?thesis by blast
qed

theorem length_truncation_witness:
  "length (replicate 256 (0x41 :: 16 word)) mod 256 \<le> 7
   \<and> length (replicate 256 (0x41 :: 16 word)) = 256
   \<and> StringToSymbol 4 (replicate 256 0x41) = Inr 4
   \<and> length (replicate 258 (0x41 :: 16 word)) mod 256 \<le> 7
   \<and> StringToSymbol 4 (replicate 258 0x41) = Inr 0x414104
   \<and> 7 < length (replicate 8 (0x41 :: 16 word)) mod 256
   \<and> StringToSymbol 4 (replicate 8 0x41) = Inl InvalidSymbolLength"
proof -
  have two: "StringToSymbol 4 (take (258 mod 256) (replicate 258 0x41)) = Inr 0x414104"
    by code_simp
  show ?thesis
    using length_truncation [of 4 "replicate 256 0x41"]
      length_truncation [of 4 "replicate 258 0x41"]
      length_truncation [of 4 "replicate 8 0x41"] two
    by (simp add: StringToSymbol_empty)
qed

section \<open>Serialization\<close>

text \<open>
  Claim C4.  Deserializing the bytes that \<open>serialize\<close> wrote gives back the value,
  for every \<open>Asset\<close> (valid or not) and every \<open>PermissionLevel\<close>, whatever the
  object read into held before.  The bytes are the two fields in order (amount then
  symbol; actor then permission), each as eight little-endian bytes: 16 bytes with no
  length prefix, and the read consumes all 16.
\<close>

theorem serialize_roundtrip:
  "Asset_deserialize x \<lparr>buffer = buffer (Asset_serialize a \<lparr>buffer = [], pos = 0\<rparr>), pos = 0\<rparr>
     = Inr (a, \<lparr>buffer = buffer (Asset_serialize a \<lparr>buffer = [], pos = 0\<rparr>), pos = 16\<rparr>)
   \<and> buffer (Asset_serialize a \<lparr>buffer = [], pos = 0\<rparr>)
       = u64_to_bytes (amount a) @ u64_to_bytes (symbol a)
   \<and> length (buffer (Asset_serialize a \<lparr>buffer = [], pos = 0\<rparr>)) = 16
   \<and> PermissionLevel_deserialize y
        \<lparr>buffer = buffer (PermissionLevel_serialize p \<lparr>buffer = [], pos = 0\<rparr>), pos = 0\<rparr>
     = Inr (p, \<lparr>buffer = buffer (PermissionLevel_serialize p \<lparr>buffer = [], pos = 0\<rparr>), pos = 16\<rparr>)
   \<and> buffer (PermissionLevel_serialize p \<lparr>buffer = [], pos = 0\<rparr>)
       = u64_to_bytes (actor p) @ u64_to_bytes (permission p)
   \<and> length (buffer (PermissionLevel_serialize p \<lparr>buffer = [], pos = 0\<rparr>)) = 16"
  by (simp add: Asset_deserialize_def Asset_serialize_def PermissionLevel_deserialize_def
      PermissionLevel_serialize_def read_u64_def write_u64_def bind_result_def
      length_u64_to_bytes u64_of_to_bytes)

theorem serialize_roundtrip_witness:
  "buffer (Asset_serialize (new_Asset 10000 0x5341475504) \<lparr>buffer = [], pos = 0\<rparr>)
     = [0x10, 0x27, 0, 0, 0, 0, 0, 0, 0x04, 0x55, 0x47, 0x41, 0x53, 0, 0, 0]
   \<and> Asset_deserialize (new_Asset 0 0)
        \<lparr>buffer = [0x10, 0x27, 0, 0, 0, 0, 0, 0, 0x04, 0x55, 0x47, 0x41, 0x53, 0, 0, 0], pos = 0\<rparr>
     = Inr (new_Asset 10000 0x5341475504,
        \<lparr>buffer = [0x10, 0x27, 0, 0, 0, 0, 0, 0, 0x04, 0x55, 0x47, 0x41, 0x53, 0, 0, 0], pos = 16\<rparr>)"
proof -
  have bytes: "buffer (Asset_serialize (new_Asset 10000 0x5341475504) \<lparr>buffer = [], pos = 0\<rparr>)
      = [0x10, 0x27, 0, 0, 0, 0, 0, 0, 0x04, 0x55, 0x47, 0x41, 0x53, 0, 0, 0]"
    by code_simp
  from serialize_roundtrip [of "new_Asset 0 0" "new_Asset 10000 0x5341475504"
      "new_PermissionLevel 0 0" "new_PermissionLevel 1 2"]
  have "Asset_deserialize (new_Asset 0 0)
      \<lparr>buffer = buffer (Asset_serialize (new_Asset 10000 0x5341475504) \<lparr>buffer = [], pos = 0\<rparr>),
        pos = 0\<rparr>
    = Inr (new_Asset 10000 0x5341475504,
      \<lparr>buffer = buffer (Asset_serialize (new_Asset 10000 0x5341475504) \<lparr>buffer = [], pos = 0\<rparr>),
        pos = 16\<rparr>)"
    by (rule conjunct1)
  with bytes show ?thesis
    by simp
qed

section \<open>Rendering\<close>

text \<open>
  A number below \<open>10 ^ k\<close> has at most \<open>k\<close> decimal digits, so the count passed
  to \<open>repeat\<close> is never negative; the loop of \<open>toString\<close> reads back the letters
  that \<open>StringToSymbol\<close> packed; and within the amount range the quotient and the
  remainder are non-negative as i64, so \<open>itoa64\<close> prints no sign.
\<close>

lemma length_utoa: "0 < k \<Longrightarrow> n < 10 ^ k \<Longrightarrow> length (utoa n) \<le> k"
proof (induction k arbitrary: n)
  case 0
  then show ?case by simp
next
  case (Suc k)
  show ?case
  proof (cases "n < 10")
    case True
    then show ?thesis by (subst utoa.simps) simp
  next
    case False
    then have "0 < k"
      using Suc.prems(2) by (cases k) simp_all
    moreover from Suc.prems(2) have "n div 10 < 10 ^ k"
      by simp
    ultimately have "length (utoa (n div 10)) \<le> k"
      by (rule Suc.IH)
    with False show ?thesis by (subst utoa.simps) simp
  qed
qed


lemma toString_loop_zero: "drop_bit 8 x = 0 \<Longrightarrow> toString_loop x i acc = acc"
proof (induction "7 - i" arbitrary: x i)
  case 0
  then show ?case by (subst toString_loop.simps) simp
next
  case (Suc n)
  then have "i < 7" and "n = 7 - (i + 1)" by simp_all
  moreover have "toString_loop 0 (i + 1) acc = acc"
    using Suc.hyps(1) [of "i + 1" 0] \<open>n = 7 - (i + 1)\<close> by simp
  ultimately show ?case
    using Suc.prems by (subst toString_loop.simps) (simp add: Let_def CHAR_A_def)
qed

lemma toString_loop_letters:
  assumes "drop_bit 8 x = u64_of_bytes bs" and "\<forall>b\<in>set bs. 0x41 \<le> b \<and> b \<le> 0x5A"
    and "i + length bs \<le> 7"
  shows "toString_loop x i acc = acc @ map ucast bs"
  using assms
proof (induction bs arbitrary: x i acc)
  case Nil
  then show ?case by (simp add: toString_loop_zero)
next
  case (Cons b bs)
  from Cons.prems have i7: "i < 7" and short: "length bs \<le> 7"
    and rng: "0x41 \<le> b" "b \<le> 0x5A"
    by simp_all
  have head: "(ucast (u64_of_bytes (b # bs) AND 0xff) :: u8) = b"
    by (simp only: u64_of_bytes_low ucast_byte_back)
  have tail: "drop_bit 8 (u64_of_bytes (b # bs)) = u64_of_bytes bs"
    using short by (rule u64_of_bytes_shift)
  have "toString_loop x i acc = toString_loop (u64_of_bytes (b # bs)) (i + 1) (acc @ [ucast b])"
    using i7 head Cons.prems(1) byte_in_range [OF rng]
    by (subst toString_loop.simps) (simp add: Let_def not_less)
  also have "\<dots> = (acc @ [ucast b]) @ map ucast bs"
    using tail Cons.prems by (intro Cons.IH) simp_all
  finally show ?case by simp
qed

lemma unit_back:
  assumes "(c :: 16 word) \<le> 0x5A"
  shows "(ucast (ucast c :: u8) :: 16 word) = c"
proof -
  from assms have "unat c \<le> 90" by (simp add: word_le_nat_alt)
  then have "unat (ucast (ucast c :: u8) :: 16 word) = unat c"
    by (simp add: unsigned_ucast_eq take_bit_eq_mod unat_mod)
  then show ?thesis by (simp only: word_unat_eq_iff)
qed

lemma pow10_exact:
  assumes "n \<le> 19"
  shows "uint (10 ^ n :: u64) = 10 ^ n"
proof -
  from assms have "(10 :: int) ^ n \<le> 10 ^ 19"
    by (intro power_increasing) simp_all
  then have small: "(10 :: int) ^ n < 2 ^ 64" by simp
  have "(10 ^ n :: u64) = word_of_int (10 ^ n)"
    by simp
  then have "uint (10 ^ n :: u64) = (10 ^ n) mod 2 ^ 64"
    by (simp only: uint_word_of_int) simp
  with small show ?thesis by simp
qed

lemma itoa64_nonneg:
  assumes "uint v < 2 ^ 63"
  shows "itoa64 v = utoa (uint v)"
proof -
  have "0 \<le> uint v"
    by simp
  then have "- (2 ^ 63) \<le> uint v"
    by (rule order_trans [rotated]) simp
  with assms have "signed_take_bit 63 (uint v) = uint v"
    by (intro signed_take_bit_int_eq_self) simp_all
  then have "sint v = uint v"
    by (simp add: sint_uint)
  then show ?thesis
    by (simp add: itoa64_def)
qed

lemma formatAmount_canonical:
  assumes "p \<le> 18" and "isAmountWithinRange amt"
  shows "formatAmount amt p = Inr (utoa (uint amt div 10 ^ unat p)
    @ (if p = 0 then [] else 0x2E # pad_left (unat p) (utoa (uint amt mod 10 ^ unat p))))"
proof -
  let ?n = "unat p"
  let ?D = "(10 :: int) ^ ?n"
  from assms(1) have n18: "?n \<le> 18"
    by (simp add: word_le_nat_alt)
  then have pow: "pow10_u64 p = Inr (10 ^ ?n)"
    by (simp add: pow10_u64_def)
  have digit: "uint (10 ^ ?n :: u64) = ?D"
    using n18 by (intro pow10_exact) simp
  have Dpos: "0 < ?D"
    by simp
  from assms(2) have amt: "uint amt < 2 ^ 62"
    by (simp add: isAmountWithinRange_def word_le_def MAX_AMOUNT_def)
  have amt0: "0 \<le> uint amt"
    by simp
  have q: "uint (amt div 10 ^ ?n) = uint amt div ?D"
    by (simp add: uint_div digit)
  have r: "uint (amt mod 10 ^ ?n) = uint amt mod ?D"
    by (simp add: uint_mod digit)
  have "uint amt div ?D \<le> uint amt"
    using zdiv_mono2 [of "uint amt" 1 ?D] by simp
  with amt have "uint (amt div 10 ^ ?n) < 2 ^ 63"
    by (simp add: q)
  then have int_part: "itoa64 (amt div 10 ^ ?n) = utoa (uint amt div ?D)"
    by (simp add: itoa64_nonneg q)
  have "uint amt mod ?D \<le> uint amt"
    using amt0 by (rule zmod_le_nonneg_dividend)
  with amt have "uint (amt mod 10 ^ ?n) < 2 ^ 63"
    by (simp add: r)
  then have frac_part: "itoa64 (amt mod 10 ^ ?n) = utoa (uint amt mod ?D)"
    by (simp add: itoa64_nonneg r)
  show ?thesis
  proof (cases "p = 0")
    case True
    then show ?thesis
      using pow int_part by (simp add: formatAmount_def bind_result_def)
  next
    case False
    then have npos: "0 < ?n"
      by (simp add: unat_gt_0)
    have "uint amt mod ?D < ?D"
      using Dpos by simp
    with npos have len: "length (utoa (uint amt mod ?D)) \<le> ?n"
      by (rule length_utoa)
    have up: "uint p = int ?n"
      by simp
    show ?thesis
      using False pow int_part frac_part len
      by (simp add: formatAmount_def bind_result_def Let_def repeat_zero_def pad_left_def up
          nat_diff_distrib del: of_nat_unat)
  qed
qed

lemma symbol_precision: "(ucast ((push_bit 8 x OR ucast (p :: u8)) AND (0xFF :: u64)) :: u8) = p"
  by (simp only: symbol_low ucast_byte_back)

lemma toString_of_symbol:
  assumes "length s \<le> 7" and "\<forall>c\<in>set s. 0x41 \<le> c \<and> c \<le> 0x5A"
  shows "toString_loop (push_bit 8 (u64_of_bytes (map ucast s)) OR ucast (p :: u8)) 0 [] = s"
proof -
  let ?bs = "map ucast s :: u8 list"
  have letters: "\<forall>b\<in>set ?bs. 0x41 \<le> b \<and> b \<le> 0x5A"
    using assms(2) by (rule bytes_of_letters)
  have "drop_bit 8 (push_bit 8 (u64_of_bytes ?bs) OR ucast p) = u64_of_bytes ?bs"
    by (rule symbol_shift) (simp add: assms(1))
  then have "toString_loop (push_bit 8 (u64_of_bytes ?bs) OR ucast p) 0 []
      = [] @ map ucast ?bs"
    using letters assms(1) by (intro toString_loop_letters) simp_all
  also have "map ucast ?bs = s"
    using assms(2) by (simp add: map_idI unit_back)
  finally show ?thesis by simp
qed

text \<open>
  Claim C9.  \<open>toString\<close> of amount 10000 with symbol \<open>StringToSymbol(4, "UGAS")\<close> is
  "1.0000 UGAS", and of amount 0 with symbol \<open>StringToSymbol(0, "XRT")\<close> is "0 XRT".
  In general, for a precision of at most 18, a name of at most 7 letters
  \<open>A\<close>--\<open>Z\<close> and an amount within range, \<open>toString\<close> returns the canonical form:
  the integer part, then, unless the precision is 0, a decimal point and the
  fractional part zero-padded to exactly \<open>precision\<close> digits, then a space and the
  name.
\<close>

theorem toString_canonical:
  "bind_result (StringToSymbol 4 (str ''UGAS'')) (\<lambda>sy. toString (new_Asset 10000 sy))
     = Inr (str ''1.0000 UGAS'')
   \<and> bind_result (StringToSymbol 0 (str ''XRT'')) (\<lambda>sy. toString (new_Asset 0 sy))
     = Inr (str ''0 XRT'')
   \<and> (p \<le> 18 \<and> length s \<le> 7 \<and> (\<forall>c\<in>set s. 0x41 \<le> c \<and> c \<le> 0x5A)
        \<and> isAmountWithinRange amt \<longrightarrow>
      bind_result (StringToSymbol p s) (\<lambda>sy. toString (new_Asset amt sy))
        = Inr (canonical_form (uint amt) (unat p) s)
      \<and> (p \<noteq> 0 \<longrightarrow>
          length (pad_left (unat p) (utoa (uint amt mod 10 ^ unat p))) = unat p))"
proof -
  have ex1: "bind_result (StringToSymbol 4 (str ''UGAS'')) (\<lambda>sy. toString (new_Asset 10000 sy))
      = Inr (str ''1.0000 UGAS'')"
    by code_simp
  have ex2: "bind_result (StringToSymbol 0 (str ''XRT'')) (\<lambda>sy. toString (new_Asset 0 sy))
      = Inr (str ''0 XRT'')"
    by code_simp
  have gen: "bind_result (StringToSymbol p s) (\<lambda>sy. toString (new_Asset amt sy))
        = Inr (canonical_form (uint amt) (unat p) s)
      \<and> (p \<noteq> 0 \<longrightarrow>
          length (pad_left (unat p) (utoa (uint amt mod 10 ^ unat p))) = unat p)"
    if p: "p \<le> 18" and len: "length s \<le> 7"
      and letters: "\<forall>c\<in>set s. 0x41 \<le> c \<and> c \<le> 0x5A"
      and range: "isAmountWithinRange amt"
  proof
    let ?sy = "push_bit 8 (u64_of_bytes (map ucast s)) OR ucast p :: u64"
    have enc: "StringToSymbol p s = Inr ?sy"
      using len letters by (rule StringToSymbol_packs)
    have "toString (new_Asset amt ?sy) = Inr (canonical_form (uint amt) (unat p) s)"
      using formatAmount_canonical [OF p range] toString_of_symbol [OF len letters, of p]
      by (simp only: toString_def new_Asset_def Asset.simps Let_def symbol_precision
          bind_result_def canonical_form_def sum.case unat_eq_0)
        simp
    with enc show "bind_result (StringToSymbol p s) (\<lambda>sy. toString (new_Asset amt sy))
        = Inr (canonical_form (uint amt) (unat p) s)"
      by (simp add: bind_result_def)
    have "0 < (10 :: int) ^ unat p"
      by simp
    then have "uint amt mod 10 ^ unat p < 10 ^ unat p"
      by simp
    then have "length (utoa (uint amt mod 10 ^ unat p)) \<le> unat p" if "0 < unat p"
      using that by (intro length_utoa)
    then show "p \<noteq> 0 \<longrightarrow>
        length (pad_left (unat p) (utoa (uint amt mod 10 ^ unat p))) = unat p"
      by (simp add: pad_left_def unat_gt_0)
  qed
  from ex1 ex2 gen show ?thesis
    by blast
qed

theorem toString_canonical_witness:
  "(2 :: u8) \<le> 18 \<and> length (str ''ABC'') \<le> 7 \<and> isAmountWithinRange 123405
   \<and> bind_result (StringToSymbol 2 (str ''ABC'')) (\<lambda>sy. toString (new_Asset 123405 sy))
       = Inr (str ''1234.05 ABC'')"
proof -
  have letters: "\<forall>c\<in>set (str ''ABC''). 0x41 \<le> c \<and> c \<le> 0x5A"
    by (simp add: str_def)
  have range: "isAmountWithinRange 123405"
    by (simp add: isAmountWithinRange_unat)
  have form: "canonical_form (uint (123405 :: u64)) (unat (2 :: u8)) (str ''ABC'') = str ''1234.05 ABC''"
    by code_simp
  show ?thesis
    using toString_canonical [of 2 "str ''ABC''" 123405] letters range form
    by (simp add: str_def)
qed

end
